theory Spec2Isabelle
  imports Main "HOL-Library.Word"
begin

section \<open>The checksum protocol layer of network-marshalling\<close>

text \<open>
  A shallow embedding of \<^verbatim>\<open>checksum_layer\<close> (protocol/checksum_layer.hpp) and of
  \<^verbatim>\<open>checksum_layer_options_parser\<close>. The template parameters of the class (the
  field type, the calculator, the next layer, the options) are parameters of the model.
  Buffers are byte lists, iterators are indices into them, and every output parameter
  of the C++ code is a component of an explicit state that each operation returns.
\<close>

subsection \<open>Bytes, sizes and status codes\<close>

type_synonym byte = "8 word"

text \<open>
  Modelled from the spec: the status codes (section 3 of the specification); the
  enumeration itself is declared in a header outside the given sources.
\<close>

datatype status_type =
  success | update_required | not_enough_data | protocol_error | buffer_overflow

text \<open>
  \<^verbatim>\<open>std::size_t\<close> is taken to be 64 bits wide. Sizes are natural numbers and the
  only operation that can leave the range, subtraction, has its wrap-around written out.
\<close>

definition size_sub :: "nat \<Rightarrow> nat \<Rightarrow> nat" where
  "size_sub a b = (if b \<le> a then a - b else (a + 2 ^ 64) - b)"

text \<open>\<^verbatim>\<open>static_cast<std::size_t>(std::distance(a, b))\<close> on two random access iterators.\<close>

definition distance :: "nat \<Rightarrow> nat \<Rightarrow> nat" where
  "distance a b = size_sub b a"

subsection \<open>Options\<close>

text \<open>
  \<^verbatim>\<open>checksum_layer_options_parser<TOptions...>\<close>: the empty pack gives \<^verbatim>\<open>false\<close>, a
  leading \<^verbatim>\<open>checksum_layer_verify_before_read\<close> gives \<^verbatim>\<open>true\<close>, a leading
  \<^verbatim>\<open>empty_option\<close> is skipped and a leading tuple is spliced into the pack.
\<close>

datatype layer_option =
  checksum_layer_verify_before_read | empty_option | tuple "layer_option list"

function has_verify_before_read :: "layer_option list \<Rightarrow> bool" where
  "has_verify_before_read [] = False"
| "has_verify_before_read (checksum_layer_verify_before_read # os) = True"
| "has_verify_before_read (empty_option # os) = has_verify_before_read os"
| "has_verify_before_read (tuple bs # os) = has_verify_before_read (bs @ os)"
  by pat_completeness auto
termination
  by (relation "measure (size_list size)") auto

subsection \<open>The checksum field\<close>

text \<open>
  Modelled from the spec: the field type \<^verbatim>\<open>TField\<close> is a template parameter; the
  static assertions of the class require it to be integral and of fixed length. It is
  modelled as an unsigned integer serialised on \<open>field_length\<close> bytes in the field's
  byte order, whose value type has the same width. \<^verbatim>\<open>read\<close> fails with
  \<^verbatim>\<open>not_enough_data\<close> and \<^verbatim>\<open>write\<close> with \<^verbatim>\<open>buffer_overflow\<close> when fewer than
  \<open>field_length\<close> bytes are available, and both advance the iterator by \<open>field_length\<close>
  otherwise.
\<close>

datatype endian = little_endian | big_endian

fun write_data_le :: "nat \<Rightarrow> nat \<Rightarrow> byte list" where
  "write_data_le 0 v = []"
| "write_data_le (Suc n) v = word_of_nat (v mod 256) # write_data_le n (v div 256)"

fun read_data_le :: "byte list \<Rightarrow> nat" where
  "read_data_le [] = 0"
| "read_data_le (b # bs) = unat b + 256 * read_data_le bs"

definition write_data :: "endian \<Rightarrow> nat \<Rightarrow> nat \<Rightarrow> byte list" where
  "write_data e n v = (case e of little_endian \<Rightarrow> write_data_le n v
                               | big_endian \<Rightarrow> rev (write_data_le n v))"

definition read_data :: "endian \<Rightarrow> byte list \<Rightarrow> nat" where
  "read_data e bs = (case e of little_endian \<Rightarrow> read_data_le bs
                             | big_endian \<Rightarrow> read_data_le (rev bs))"

text \<open>
  The layer's compile-time configuration: the field (its length and byte order), the
  calculator \<^verbatim>\<open>TCalc\<close>, a function of the bytes of the range it is given, and the
  options.
\<close>

record checksum_layer =
  field_length :: nat
  field_endian :: endian
  TCalc :: "byte list \<Rightarrow> nat"
  TOptions :: "layer_option list"

definition min_length :: "checksum_layer \<Rightarrow> nat" where
  "min_length L = field_length L"

definition max_length :: "checksum_layer \<Rightarrow> nat" where
  "max_length L = field_length L"

text \<open>\<^verbatim>\<open>static_cast<FieldValueType>(checksum)\<close>: truncation to the field's width.\<close>

definition cast_value :: "checksum_layer \<Rightarrow> nat \<Rightarrow> nat" where
  "cast_value L c = c mod 256 ^ field_length L"

text \<open>\<^verbatim>\<open>TCalc()(fromIter, len)\<close>: the calculator over \<open>len\<close> bytes from \<open>fromIter\<close>.\<close>

definition calc_range :: "checksum_layer \<Rightarrow> byte list \<Rightarrow> nat \<Rightarrow> nat \<Rightarrow> nat" where
  "calc_range L buf fromIter len = TCalc L (take len (drop fromIter buf))"

text \<open>\<^verbatim>\<open>field.read(iter, size)\<close>: status, the field's value and the iterator afterwards.\<close>

definition field_read ::
  "checksum_layer \<Rightarrow> byte list \<Rightarrow> nat \<Rightarrow> nat \<Rightarrow> nat \<Rightarrow> status_type \<times> nat \<times> nat" where
  "field_read L buf v it sz =
     (if sz < field_length L then (not_enough_data, v, it)
      else (success,
            read_data (field_endian L) (take (field_length L) (drop it buf)),
            it + field_length L))"

subsection \<open>Reading\<close>

text \<open>
  The state a read works on: the iterator, the value of the \<open>field\<close> argument, the
  message (\<open>None\<close> is the empty, unpopulated message), the slot \<^verbatim>\<open>missingSize\<close> points
  to (\<open>None\<close> is a null pointer), and the log of the calls made to the next layer's
  \<^verbatim>\<open>read\<close>, each with the iterator position and the size it was given.
\<close>

record 'm read_state =
  iter :: nat
  field_value :: nat
  msg :: "'m option"
  missingSize :: "nat option"
  inner_reads :: "(nat \<times> nat) list"

text \<open>
  The next layer's reader is a parameter: from the buffer, the message, the iterator,
  the size and the missing-size slot it gives its status and the three it may change.
\<close>

type_synonym 'm reader =
  "byte list \<Rightarrow> 'm option \<Rightarrow> nat \<Rightarrow> nat \<Rightarrow> nat option
     \<Rightarrow> status_type \<times> 'm option \<times> nat \<times> nat option"

definition next_layer_read ::
  "'m reader \<Rightarrow> byte list \<Rightarrow> nat \<Rightarrow> 'm read_state \<Rightarrow> status_type \<times> 'm read_state" where
  "next_layer_read rd buf sz st =
     (case rd buf (msg st) (iter st) sz (missingSize st) of
        (es, m, it, ms) \<Rightarrow>
          (es, st\<lparr>iter := it, msg := m, missingSize := ms,
                  inner_reads := inner_reads st @ [(iter st, sz)]\<rparr>))"

text \<open>
  Modelled from the spec: \<^verbatim>\<open>reset_msg\<close> and \<^verbatim>\<open>update_missing_size\<close> belong to
  \<^verbatim>\<open>protocol_layer_base\<close>, which is outside the given sources. The first restores
  the message to its empty state; the second writes, when a slot is supplied, the exact
  number of bytes the field still lacks.
\<close>

definition reset_msg :: "'m option \<Rightarrow> 'm option" where
  "reset_msg m = None"

definition update_missing_size :: "checksum_layer \<Rightarrow> nat \<Rightarrow> nat option \<Rightarrow> nat option" where
  "update_missing_size L sz ms =
     (case ms of None \<Rightarrow> None | Some old \<Rightarrow> Some (field_length L - sz))"

text \<open>
  \<^verbatim>\<open>MARSHALLING_ASSERT\<close> is modelled as in a checked build: a violated assertion
  stops the program, and the operation's result is \<open>None\<close>.
\<close>

definition verify_read ::
  "checksum_layer \<Rightarrow> byte list \<Rightarrow> 'm read_state \<Rightarrow> nat \<Rightarrow> 'm reader
     \<Rightarrow> (status_type \<times> 'm read_state) option" where
  "verify_read L buf st sz nextLayerReader =
     (let fromIter = iter st;
          toIter = fromIter + size_sub sz (min_length L);
          len = distance fromIter toIter
      in case field_read L buf (field_value st) toIter (min_length L) of
           (checksumEs, v, toIter') \<Rightarrow>
             let st1 = st\<lparr>field_value := v\<rparr> in
             if checksumEs \<noteq> success then Some (checksumEs, st1)
             else
               let checksum = calc_range L buf fromIter len;
                   expectedValue = field_value st1
               in if expectedValue \<noteq> cast_value L checksum
                  then Some (protocol_error, st1\<lparr>msg := reset_msg (msg st1)\<rparr>)
                  else
                    case next_layer_read nextLayerReader buf
                           (size_sub sz (min_length L)) st1 of
                      (es, st2) \<Rightarrow>
                        if es = success then Some (es, st2\<lparr>iter := toIter'\<rparr>)
                        else Some (es, st2))"

definition read_verify ::
  "checksum_layer \<Rightarrow> byte list \<Rightarrow> 'm read_state \<Rightarrow> nat \<Rightarrow> 'm reader
     \<Rightarrow> (status_type \<times> 'm read_state) option" where
  "read_verify L buf st sz nextLayerReader =
     (let fromIter = iter st in
      case next_layer_read nextLayerReader buf (size_sub sz (min_length L)) st of
        (es, st1) \<Rightarrow>
          if es = not_enough_data \<or> es = protocol_error then Some (es, st1)
          else
            let len = distance fromIter (iter st1) in
            if len \<le> sz then
              let remSize = size_sub sz len in
              case field_read L buf (field_value st1) (iter st1) remSize of
                (checksumEs, v, it) \<Rightarrow>
                  let st2 = st1\<lparr>iter := it, field_value := v\<rparr>;
                      st3 = (if checksumEs = not_enough_data
                             then st2\<lparr>missingSize :=
                                        update_missing_size L remSize (missingSize st2)\<rparr>
                             else st2)
                  in if checksumEs \<noteq> success
                     then Some (checksumEs, st3\<lparr>msg := reset_msg (msg st3)\<rparr>)
                     else
                       let checksum = calc_range L buf fromIter len;
                           expectedValue = field_value st3
                       in if expectedValue \<noteq> cast_value L checksum
                          then Some (protocol_error, st3\<lparr>msg := reset_msg (msg st3)\<rparr>)
                          else Some (es, st3)
            else None)"

text \<open>\<^verbatim>\<open>verify_tag\<close> selects the overload of \<^verbatim>\<open>read_internal\<close>.\<close>

definition read_internal ::
  "checksum_layer \<Rightarrow> byte list \<Rightarrow> 'm read_state \<Rightarrow> nat \<Rightarrow> 'm reader
     \<Rightarrow> (status_type \<times> 'm read_state) option" where
  "read_internal L buf st sz nextLayerReader =
     (if has_verify_before_read (TOptions L)
      then verify_read L buf st sz nextLayerReader
      else read_verify L buf st sz nextLayerReader)"

definition eval_read ::
  "checksum_layer \<Rightarrow> byte list \<Rightarrow> 'm read_state \<Rightarrow> nat \<Rightarrow> 'm reader
     \<Rightarrow> (status_type \<times> 'm read_state) option" where
  "eval_read L buf st sz nextLayerReader =
     (if sz < min_length L then Some (not_enough_data, st)
      else read_internal L buf st sz nextLayerReader)"

subsection \<open>Writing and updating\<close>

text \<open>
  The iterator category decides how bytes reach the buffer: a random access iterator
  overwrites the bytes at its position, an output iterator (a back inserter) appends.
\<close>

datatype iterator_category = random_access_iterator_tag | output_iterator_tag

definition put_bytes ::
  "iterator_category \<Rightarrow> byte list \<Rightarrow> nat \<Rightarrow> byte list \<Rightarrow> byte list \<times> nat" where
  "put_bytes tag buf it bs =
     (case tag of
        random_access_iterator_tag \<Rightarrow>
          (take it buf @ bs @ drop (it + length bs) buf, it + length bs)
      | output_iterator_tag \<Rightarrow> (buf @ bs, it + length bs))"

text \<open>
  The state a write or an update works on: the buffer, the iterator, the value of the
  \<open>field\<close> argument and the log of the calls made to the next layer.
\<close>

record write_state =
  out_buf :: "byte list"
  out_iter :: nat
  out_field :: nat
  inner_writes :: "(nat \<times> nat) list"

text \<open>\<^verbatim>\<open>field.write(iter, size)\<close>.\<close>

definition field_write ::
  "checksum_layer \<Rightarrow> iterator_category \<Rightarrow> write_state \<Rightarrow> nat
     \<Rightarrow> status_type \<times> write_state" where
  "field_write L tag st sz =
     (if sz < field_length L then (buffer_overflow, st)
      else
        case put_bytes tag (out_buf st) (out_iter st)
               (write_data (field_endian L) (field_length L) (out_field st)) of
          (b, it) \<Rightarrow> (success, st\<lparr>out_buf := b, out_iter := it\<rparr>))"

type_synonym 'm writer =
  "iterator_category \<Rightarrow> 'm \<Rightarrow> byte list \<Rightarrow> nat \<Rightarrow> nat \<Rightarrow> status_type \<times> byte list \<times> nat"

definition next_layer_write ::
  "'m writer \<Rightarrow> iterator_category \<Rightarrow> 'm \<Rightarrow> nat \<Rightarrow> write_state
     \<Rightarrow> status_type \<times> write_state" where
  "next_layer_write wr tag m sz st =
     (case wr tag m (out_buf st) (out_iter st) sz of
        (es, b, it) \<Rightarrow>
          (es, st\<lparr>out_buf := b, out_iter := it,
                  inner_writes := inner_writes st @ [(out_iter st, sz)]\<rparr>))"

type_synonym updater = "byte list \<Rightarrow> nat \<Rightarrow> nat \<Rightarrow> status_type \<times> byte list \<times> nat"

definition next_layer_update ::
  "updater \<Rightarrow> nat \<Rightarrow> write_state \<Rightarrow> status_type \<times> write_state" where
  "next_layer_update upd sz st =
     (case upd (out_buf st) (out_iter st) sz of
        (es, b, it) \<Rightarrow>
          (es, st\<lparr>out_buf := b, out_iter := it,
                  inner_writes := inner_writes st @ [(out_iter st, sz)]\<rparr>))"

definition write_internal_random_access ::
  "checksum_layer \<Rightarrow> 'm \<Rightarrow> write_state \<Rightarrow> nat \<Rightarrow> 'm writer
     \<Rightarrow> (status_type \<times> write_state) option" where
  "write_internal_random_access L m st sz nextLayerWriter =
     (let fromIter = out_iter st in
      case next_layer_write nextLayerWriter random_access_iterator_tag m sz st of
        (es, st1) \<Rightarrow>
          if es \<noteq> success \<and> es \<noteq> update_required then Some (es, st1)
          else if fromIter \<le> out_iter st1 then
            let len = distance fromIter (out_iter st1);
                remSize = size_sub sz len
            in if remSize < max_length L then Some (buffer_overflow, st1)
               else if es = update_required then
                 (case field_write L random_access_iterator_tag st1 remSize of
                    (esTmp, st2) \<Rightarrow> if esTmp = success then Some (es, st2) else None)
               else
                 let checksum = calc_range L (out_buf st1) fromIter len;
                     st2 = st1\<lparr>out_field := cast_value L checksum\<rparr>
                 in Some (field_write L random_access_iterator_tag st2 remSize)
          else None)"

definition write_internal_output ::
  "checksum_layer \<Rightarrow> 'm \<Rightarrow> write_state \<Rightarrow> nat \<Rightarrow> 'm writer
     \<Rightarrow> (status_type \<times> write_state) option" where
  "write_internal_output L m st sz nextLayerWriter =
     (case next_layer_write nextLayerWriter output_iterator_tag m
             (size_sub sz (max_length L)) st of
        (es, st1) \<Rightarrow>
          if es \<noteq> success \<and> es \<noteq> update_required then Some (es, st1)
          else
            case field_write L output_iterator_tag st1 (max_length L) of
              (esTmp, st2) \<Rightarrow>
                if esTmp = success then Some (update_required, st2) else None)"

definition write_internal ::
  "checksum_layer \<Rightarrow> iterator_category \<Rightarrow> 'm \<Rightarrow> write_state \<Rightarrow> nat \<Rightarrow> 'm writer
     \<Rightarrow> (status_type \<times> write_state) option" where
  "write_internal L tag m st sz nextLayerWriter =
     (case tag of
        random_access_iterator_tag \<Rightarrow>
          write_internal_random_access L m st sz nextLayerWriter
      | output_iterator_tag \<Rightarrow> write_internal_output L m st sz nextLayerWriter)"

definition eval_write ::
  "checksum_layer \<Rightarrow> iterator_category \<Rightarrow> 'm \<Rightarrow> write_state \<Rightarrow> nat \<Rightarrow> 'm writer
     \<Rightarrow> (status_type \<times> write_state) option" where
  "eval_write L tag m st sz nextLayerWriter =
     write_internal L tag m st sz nextLayerWriter"

definition eval_update ::
  "checksum_layer \<Rightarrow> write_state \<Rightarrow> nat \<Rightarrow> updater
     \<Rightarrow> (status_type \<times> write_state) option" where
  "eval_update L st sz nextLayerUpdater =
     (let fromIter = out_iter st in
      case next_layer_update nextLayerUpdater (size_sub sz (max_length L)) st of
        (es, st1) \<Rightarrow>
          if es \<noteq> success then Some (es, st1)
          else if fromIter \<le> out_iter st1 then
            let len = distance fromIter (out_iter st1) in
            if len = size_sub sz (max_length L) then
              let remSize = size_sub sz len;
                  st2 = st1\<lparr>out_field :=
                              cast_value L (calc_range L (out_buf st1) fromIter len)\<rparr>
              in Some (field_write L random_access_iterator_tag st2 remSize)
            else None
          else None)"

subsection \<open>The collaborators used to instantiate the layer\<close>

text \<open>
  Modelled from the spec: the terminal payload layer (section 4.3), which is outside
  the given sources. On read it copies all the bytes it is given into the message's
  payload; on write it writes the payload's bytes verbatim and fails with
  \<^verbatim>\<open>buffer_overflow\<close> when they do not fit; its update only advances the iterator.
\<close>

definition payload_read :: "(byte list) reader" where
  "payload_read buf m it sz ms = (success, Some (take sz (drop it buf)), it + sz, ms)"

definition payload_write :: "(byte list) writer" where
  "payload_write tag P buf it sz =
     (if sz < length P then (buffer_overflow, buf, it)
      else case put_bytes tag buf it P of (b, i) \<Rightarrow> (success, b, i))"

definition payload_update :: updater where
  "payload_update buf it sz = (success, buf, it + sz)"

text \<open>
  Modelled from the spec: the calculator of the specification's scenario, the sum of
  the bytes modulo 256.
\<close>

definition basic_sum :: "byte list \<Rightarrow> nat" where
  "basic_sum bs = sum_list (map unat bs) mod 256"

text \<open>
  Modelled from the spec: a length-prefix layer (section 4.3) over the terminal payload
  layer, with a length field of one byte. It reads the length \<open>n\<close>, then \<open>n\<close> bytes into
  the message, and reports \<^verbatim>\<open>not_enough_data\<close> with the number of bytes it lacks when
  fewer are available.
\<close>

definition sized_read :: "(byte list) reader" where
  "sized_read buf m it sz ms =
     (case take sz (drop it buf) of
        [] \<Rightarrow> (not_enough_data, m, it, map_option (\<lambda>old. 1) ms)
      | b # rest \<Rightarrow>
          if length rest < unat b
          then (not_enough_data, m, it + 1, map_option (\<lambda>old. unat b - length rest) ms)
          else (success, Some (take (unat b) rest), it + 1 + unat b, ms))"

text \<open>The configurations and the initial states the examples below run on.\<close>

definition sum_layer :: "nat \<Rightarrow> layer_option list \<Rightarrow> checksum_layer" where
  "sum_layer w opts =
     \<lparr>field_length = w, field_endian = big_endian, TCalc = basic_sum, TOptions = opts\<rparr>"

definition read_start :: "nat option \<Rightarrow> (byte list) read_state" where
  "read_start ms =
     \<lparr>iter = 0, field_value = 0, msg = None, missingSize = ms, inner_reads = []\<rparr>"

definition write_start :: "byte list \<Rightarrow> write_state" where
  "write_start buf = \<lparr>out_buf = buf, out_iter = 0, out_field = 0, inner_writes = []\<rparr>"


section \<open>Auxiliary facts\<close>

subsection \<open>The field's encoding\<close>

lemma length_write_data_le: "length (write_data_le n v) = n"
  by (induction n arbitrary: v) auto

lemma length_write_data: "length (write_data e n v) = n"
  by (cases e) (simp_all add: write_data_def length_write_data_le)



lemma read_data_le_bound: "read_data_le bs < 256 ^ length bs"
proof (induction bs)
  case Nil show ?case by simp
next
  case (Cons b bs)
  have "unat b < 256" using unsigned_less[of b] by simp
  with Cons show ?case by simp
qed

lemma read_data_le_inj:
  "length xs = length ys \<Longrightarrow> read_data_le xs = read_data_le ys \<Longrightarrow> xs = ys"
proof (induction xs ys rule: list_induct2)
  case Nil show ?case by simp
next
  case (Cons x xs y ys)
  have bx: "unat x < 256" using unsigned_less[of x] by simp
  have "by": "unat y < 256" using unsigned_less[of y] by simp
  from Cons.prems have e: "unat x + 256 * read_data_le xs = unat y + 256 * read_data_le ys" by simp
  have "(unat x + 256 * read_data_le xs) mod 256 = unat x" using bx by simp
  moreover have "(unat y + 256 * read_data_le ys) mod 256 = unat y" using "by" by simp
  ultimately have ux: "unat x = unat y" using e by metis
  then have "x = y" by (simp add: word_unat_eq_iff)
  moreover from e ux have "read_data_le xs = read_data_le ys" by simp
  ultimately show ?case using Cons.IH by simp
qed

lemma read_data_inj:
  "xs = ys" if "length xs = length ys" "read_data e xs = read_data e ys"
proof (cases e)
  case little_endian
  then show ?thesis using that by (simp add: read_data_def read_data_le_inj)
next
  case big_endian
  with that have "rev xs = rev ys"
    by (intro read_data_le_inj) (simp_all add: read_data_def)
  then show ?thesis by simp
qed

subsection \<open>Sizes\<close>

lemma size_sub_le: "b \<le> a \<Longrightarrow> size_sub a b = a - b"
  by (simp add: size_sub_def)

lemma distance_le: "a \<le> b \<Longrightarrow> distance a b = b - a"
  by (simp add: distance_def size_sub_def)

subsection \<open>The two read policies, unfolded\<close>

lemma verify_read_eq:
  assumes "field_length L \<le> sz"
  shows "verify_read L buf st sz rd =
    (let n = sz - field_length L;
         stored = read_data (field_endian L) (take (field_length L) (drop (iter st + n) buf));
         st1 = st\<lparr>field_value := stored\<rparr>
     in if stored \<noteq> cast_value L (TCalc L (take n (drop (iter st) buf)))
        then Some (protocol_error, st1\<lparr>msg := None\<rparr>)
        else case next_layer_read rd buf n st1 of
               (es, st2) \<Rightarrow>
                 if es = success then Some (es, st2\<lparr>iter := iter st + sz\<rparr>)
                 else Some (es, st2))"
  using assms
  by (simp add: verify_read_def Let_def min_length_def size_sub_le distance_le field_read_def
      calc_range_def reset_msg_def split: prod.splits)

lemma read_verify_eq:
  assumes "field_length L \<le> sz"
    and "rd buf (msg st) (iter st) (sz - field_length L) (missingSize st) = (es, m, it, ms)"
    and "es \<noteq> not_enough_data" "es \<noteq> protocol_error"
    and "iter st \<le> it" "it - iter st \<le> sz"
  shows "read_verify L buf st sz rd =
    (let len = it - iter st;
         remSize = sz - len;
         log = inner_reads st @ [(iter st, sz - field_length L)]
     in if remSize < field_length L
        then Some (not_enough_data,
                   st\<lparr>iter := it, msg := None,
                      missingSize := update_missing_size L remSize ms, inner_reads := log\<rparr>)
        else
          let stored = read_data (field_endian L) (take (field_length L) (drop it buf)) in
          if stored \<noteq> cast_value L (TCalc L (take len (drop (iter st) buf)))
          then Some (protocol_error,
                     st\<lparr>iter := it + field_length L, field_value := stored, msg := None,
                        missingSize := ms, inner_reads := log\<rparr>)
          else Some (es,
                     st\<lparr>iter := it + field_length L, field_value := stored, msg := m,
                        missingSize := ms, inner_reads := log\<rparr>))"
  using assms
  by (simp add: read_verify_def next_layer_read_def Let_def min_length_def size_sub_le
      distance_le field_read_def calc_range_def reset_msg_def)


lemma eval_read_inner_cases:
  fixes rd :: "'m reader"
  assumes w: "field_length L \<le> sz"
    and rd: "rd buf (msg st) (iter st) (sz - field_length L) (missingSize st) = (es, m, it, ms)"
    and es: "es = not_enough_data \<or> es = success \<and> it = iter st + (sz - field_length L)"
  shows "eval_read L buf st sz rd =
    (let stored = read_data (field_endian L)
                    (take (field_length L) (drop (iter st + (sz - field_length L)) buf));
         chk = cast_value L (TCalc L (take (sz - field_length L) (drop (iter st) buf)));
         log = inner_reads st @ [(iter st, sz - field_length L)]
     in Some (
       if has_verify_before_read (TOptions L) \<and> stored \<noteq> chk
       then (protocol_error, st\<lparr>field_value := stored, msg := None\<rparr>)
       else if es = not_enough_data
       then (not_enough_data,
             st\<lparr>iter := it,
                field_value := (if has_verify_before_read (TOptions L) then stored
                                else field_value st),
                msg := m, missingSize := ms, inner_reads := log\<rparr>)
       else if stored = chk
       then (success,
             st\<lparr>iter := iter st + sz, field_value := stored, msg := m,
                missingSize := ms, inner_reads := log\<rparr>)
       else (protocol_error,
             st\<lparr>iter := iter st + sz, field_value := stored, msg := None,
                missingSize := ms, inner_reads := log\<rparr>)))"
proof (cases "has_verify_before_read (TOptions L)")
  case True
  show ?thesis
    using True w rd es
    by (auto simp add: eval_read_def read_internal_def min_length_def verify_read_eq Let_def
        next_layer_read_def)
next
  case False
  show ?thesis
  proof (cases "es = not_enough_data")
    case True
    then show ?thesis
      using False w rd
      by (simp add: eval_read_def read_internal_def min_length_def read_verify_def
          next_layer_read_def size_sub_le Let_def)
  next
    case nn: False
    with es have s: "es = success" and it: "it = iter st + (sz - field_length L)" by simp_all
    have e1: "es \<noteq> not_enough_data" and e2: "es \<noteq> protocol_error" using s by simp_all
    have i1: "iter st \<le> it" and i2: "it - iter st \<le> sz" using it by simp_all
    show ?thesis
      using False w s it
      by (simp add: eval_read_def read_internal_def min_length_def
          read_verify_eq[where rd = rd, OF w rd e1 e2 i1 i2] Let_def)
  qed
qed

lemma take_drop_take:
  "take w (drop n (take (n + w) xs)) = take w (drop n xs)"
  by (simp add: drop_take)

lemma take_take_le: "n \<le> length B \<Longrightarrow> take n (take (n + w) (B @ cs)) = take n B"
  by simp

subsection \<open>The sequential write, unfolded\<close>


subsection \<open>Writing and updating over the payload layer\<close>

lemma eval_write_random_access_payload:
  assumes "out_iter st + sz \<le> length (out_buf st)" and "length P + field_length L \<le> sz"
  shows "eval_write L random_access_iterator_tag P st sz payload_write =
    Some (success,
          st\<lparr>out_buf := take (out_iter st) (out_buf st) @ P
                         @ write_data (field_endian L) (field_length L) (cast_value L (TCalc L P))
                         @ drop (out_iter st + length P + field_length L) (out_buf st),
             out_iter := out_iter st + length P + field_length L,
             out_field := cast_value L (TCalc L P),
             inner_writes := inner_writes st @ [(out_iter st, sz)]\<rparr>)"
proof -
  have len: "min (length (out_buf st)) (out_iter st) = out_iter st"
    using assms by simp
  show ?thesis using assms
    by (simp add: eval_write_def write_internal_def write_internal_random_access_def
        next_layer_write_def payload_write_def put_bytes_def Let_def distance_le size_sub_le
        max_length_def field_write_def calc_range_def length_write_data len ac_simps)
qed

lemma eval_write_output_payload:
  assumes "length P + field_length L \<le> sz"
  shows "eval_write L output_iterator_tag P st sz payload_write =
    Some (update_required,
          st\<lparr>out_buf := out_buf st @ P
                         @ write_data (field_endian L) (field_length L) (out_field st),
             out_iter := out_iter st + length P + field_length L,
             inner_writes := inner_writes st @ [(out_iter st, sz - field_length L)]\<rparr>)"
  using assms
  by (simp add: eval_write_def write_internal_def write_internal_output_def
      next_layer_write_def payload_write_def put_bytes_def size_sub_le
      max_length_def field_write_def length_write_data)

lemma eval_update_payload:
  assumes "out_iter st + sz \<le> length (out_buf st)" and "field_length L \<le> sz"
  shows "eval_update L st sz payload_update =
    Some (success,
          st\<lparr>out_buf := take (out_iter st + (sz - field_length L)) (out_buf st)
                 @ write_data (field_endian L) (field_length L)
                     (cast_value L (TCalc L (take (sz - field_length L)
                                                  (drop (out_iter st) (out_buf st)))))
                 @ drop (out_iter st + sz) (out_buf st),
             out_iter := out_iter st + sz,
             out_field := cast_value L (TCalc L (take (sz - field_length L)
                                                  (drop (out_iter st) (out_buf st)))),
             inner_writes := inner_writes st @ [(out_iter st, sz - field_length L)]\<rparr>)"
  using assms
  by (simp add: eval_update_def next_layer_update_def payload_update_def put_bytes_def Let_def
      distance_le size_sub_le max_length_def field_write_def calc_range_def length_write_data
      ac_simps)

subsection \<open>Bit flips and the byte sum\<close>

lemma flip_bit_byte_neq: "j < 8 \<Longrightarrow> flip_bit j (b :: byte) \<noteq> b"
proof
  assume j: "j < 8" and e: "flip_bit j b = b"
  have "bit (flip_bit j b) j \<longleftrightarrow> \<not> bit b j"
    using j by (simp add: bit_flip_bit_iff)
  with e show False by simp
qed

lemma unat_sum_list_byte: "unat (sum_list xs :: byte) = sum_list (map unat xs) mod 256"
proof (induction xs)
  case Nil
  show ?case by simp
next
  case (Cons x xs)
  have "unat (x + sum_list xs) = (unat x + unat (sum_list xs)) mod 256"
    by (simp add: unat_word_ariths)
  also have "\<dots> = (unat x + sum_list (map unat xs)) mod 256"
    by (simp add: Cons.IH mod_add_right_eq)
  finally show ?case by simp
qed

lemma sum_list_update_byte:
  "i < length xs \<Longrightarrow> sum_list (xs[i := y]) + xs ! i = sum_list xs + (y :: byte)"
proof (induction xs arbitrary: i)
  case Nil
  then show ?case by simp
next
  case (Cons x xs)
  show ?case
  proof (cases i)
    case 0
    then show ?thesis by (simp add: ac_simps)
  next
    case (Suc i')
    with Cons.prems have "i' < length xs" by simp
    from Cons.IH[OF this] Suc show ?thesis by (simp add: ac_simps)
  qed
qed

lemma basic_sum_update_neq:
  assumes "i < length xs" and "y \<noteq> xs ! i"
  shows "basic_sum (xs[i := y]) \<noteq> basic_sum xs"
proof
  assume "basic_sum (xs[i := y]) = basic_sum xs"
  then have "unat (sum_list (xs[i := y])) = unat (sum_list xs)"
    by (simp add: basic_sum_def unat_sum_list_byte)
  then have "sum_list (xs[i := y]) = sum_list xs"
    by (simp add: word_unat_eq_iff)
  with sum_list_update_byte[OF assms(1), of y] have "xs ! i = y" by simp
  with assms(2) show False by simp
qed

lemma basic_sum_less: "basic_sum xs < 256"
  by (simp add: basic_sum_def)

lemma cast_value_basic_sum:
  assumes "0 < field_length L"
  shows "cast_value L (basic_sum xs) = basic_sum xs"
proof -
  have "(256::nat) ^ 1 \<le> 256 ^ field_length L"
    using assms by (intro power_increasing) simp_all
  with basic_sum_less[of xs] have "basic_sum xs < 256 ^ field_length L" by simp
  then show ?thesis by (simp add: cast_value_def)
qed

text \<open>The bytes of a range of the buffer after one byte of it, or of another range, changed.\<close>

lemma range_update_inside:
  assumes "p \<le> k" and "k < p + n" and "p + n \<le> length buf"
  shows "take n (drop p (buf[k := x])) = (take n (drop p buf))[k - p := x]"
    and "k - p < length (take n (drop p buf))"
    and "(take n (drop p buf)) ! (k - p) = buf ! k"
  using assms by (simp_all add: drop_update_swap take_update_swap)

lemma range_update_outside:
  assumes "k < p \<or> p + n \<le> k"
  shows "take n (drop p (buf[k := x])) = take n (drop p buf)"
proof (cases "k < p")
  case True
  then show ?thesis by simp
next
  case False
  with assms have "n \<le> k - p" by simp
  with False show ?thesis by (simp add: drop_update_swap)
qed

subsection \<open>Evaluation of concrete runs\<close>

lemma write_data_le_numeral:
  "write_data_le (numeral k) v
     = word_of_nat (v mod 256) # write_data_le (pred_numeral k) (v div 256)"
proof -
  have "numeral k = Suc (pred_numeral k)" by (rule numeral_eq_Suc)
  then show ?thesis by (simp only: write_data_le.simps)
qed

lemmas read_defs =
  eval_read_def read_internal_def verify_read_def read_verify_def next_layer_read_def
  field_read_def min_length_def cast_value_def calc_range_def reset_msg_def
  update_missing_size_def size_sub_def distance_def read_data_def
  payload_read_def basic_sum_def sum_layer_def read_start_def Let_def

lemmas write_defs =
  eval_write_def write_internal_def write_internal_random_access_def
  write_internal_output_def next_layer_write_def field_write_def put_bytes_def
  max_length_def cast_value_def calc_range_def size_sub_def distance_def write_data_def
  write_data_le_numeral payload_write_def basic_sum_def sum_layer_def write_start_def Let_def

lemmas update_defs =
  eval_update_def next_layer_update_def field_write_def put_bytes_def max_length_def
  cast_value_def calc_range_def size_sub_def distance_def write_data_def
  write_data_le_numeral payload_update_def basic_sum_def sum_layer_def write_start_def Let_def

section \<open>The claims\<close>



text \<open>
  C2 (corruption detection), as amended. Take a buffer whose trailing checksum field
  matches the calculator over the leading \<open>size - field_length\<close> bytes, and flip one bit
  of one byte of the \<open>size\<close> bytes. If the bit lies in the checksum field, or it lies in
  the checksummed region and the calculator's value, cast to the field, changes with it
  (as it always does for the byte sum), then the read returns \<^verbatim>\<open>protocol_error\<close>
  with the message reset: always in the verify-before-read configuration, and in the
  default configuration when the next layer's read of the changed bytes consumes the
  whole region without returning \<^verbatim>\<open>not_enough_data\<close> or \<^verbatim>\<open>protocol_error\<close>
  itself (as the payload layer does).
\<close>

theorem corruption_detected:
  fixes rd :: "'m reader"
  assumes w: "field_length L \<le> sz" and rng: "iter st + sz \<le> length buf"
    and valid: "read_data (field_endian L)
                  (take (field_length L) (drop (iter st + (sz - field_length L)) buf))
                = cast_value L (TCalc L (take (sz - field_length L) (drop (iter st) buf)))"
    and pos: "iter st \<le> k" "k < iter st + sz" and bit: "j < 8"
    and flipped: "buf' = buf[k := flip_bit j (buf ! k)]"
    and calc: "iter st + (sz - field_length L) \<le> k
               \<or> TCalc L = basic_sum \<and> 0 < field_length L
               \<or> cast_value L (TCalc L (take (sz - field_length L) (drop (iter st) buf')))
                  \<noteq> cast_value L (TCalc L (take (sz - field_length L) (drop (iter st) buf)))"
    and inner: "has_verify_before_read (TOptions L)
               \<or> (\<exists>es m ms. rd buf' (msg st) (iter st) (sz - field_length L) (missingSize st)
                               = (es, m, iter st + (sz - field_length L), ms)
                             \<and> es \<noteq> not_enough_data \<and> es \<noteq> protocol_error)"
  shows "\<exists>st'. eval_read L buf' st sz rd = Some (protocol_error, st') \<and> msg st' = None"
proof -
  let ?w = "field_length L" and ?i = "iter st" and ?n = "sz - field_length L"
  let ?stored = "\<lambda>b. read_data (field_endian L) (take ?w (drop (?i + ?n) b))"
  let ?calc = "\<lambda>b. cast_value L (TCalc L (take ?n (drop ?i b)))"
  have x: "flip_bit j (buf ! k) \<noteq> buf ! k" using bit by (rule flip_bit_byte_neq)
  have mismatch: "?stored buf' \<noteq> ?calc buf'"
  proof (cases "?i + ?n \<le> k")
    case True
    have inside: "?i + ?n \<le> k" "k < (?i + ?n) + ?w" "(?i + ?n) + ?w \<le> length buf"
      using True w pos rng by simp_all
    have lead: "take ?n (drop ?i buf') = take ?n (drop ?i buf)"
      unfolding flipped using True by (intro range_update_outside) simp
    have "take ?w (drop (?i + ?n) buf') \<noteq> take ?w (drop (?i + ?n) buf)"
    proof
      assume e: "take ?w (drop (?i + ?n) buf') = take ?w (drop (?i + ?n) buf)"
      have "(take ?w (drop (?i + ?n) buf'))  ! (k - (?i + ?n)) = flip_bit j (buf ! k)"
        unfolding flipped range_update_inside(1)[OF inside]
        using range_update_inside(2)[OF inside] by simp
      with e range_update_inside(3)[OF inside] x show False by simp
    qed
    moreover have "length (take ?w (drop (?i + ?n) buf')) = length (take ?w (drop (?i + ?n) buf))"
      by (simp add: flipped)
    ultimately have "?stored buf' \<noteq> ?stored buf"
      using read_data_inj by blast
    with valid lead show ?thesis by simp
  next
    case False
    have fld: "take ?w (drop (?i + ?n) buf') = take ?w (drop (?i + ?n) buf)"
      unfolding flipped using False by (intro range_update_outside) simp
    have inside: "?i \<le> k" "k < ?i + ?n" "?i + ?n \<le> length buf"
      using False w pos rng by simp_all
    have "?calc buf' \<noteq> ?calc buf"
    proof (cases "TCalc L = basic_sum \<and> 0 < ?w")
      case True
      have "basic_sum (take ?n (drop ?i buf')) \<noteq> basic_sum (take ?n (drop ?i buf))"
        unfolding flipped range_update_inside(1)[OF inside]
        using range_update_inside(2,3)[OF inside] x
        by (intro basic_sum_update_neq) simp_all
      with True show ?thesis by (simp add: cast_value_basic_sum)
    next
      case no: False
      with calc False show ?thesis by simp
    qed
    with valid fld show ?thesis by simp
  qed
  show ?thesis
  proof (cases "has_verify_before_read (TOptions L)")
    case True
    then show ?thesis using w mismatch
      by (simp add: eval_read_def read_internal_def min_length_def verify_read_eq Let_def)
  next
    case False
    with inner obtain es m ms where
      rd: "rd buf' (msg st) ?i ?n (missingSize st) = (es, m, ?i + ?n, ms)"
      and es: "es \<noteq> not_enough_data" "es \<noteq> protocol_error"
      by blast
    have "read_verify L buf' st sz rd
      = Some (protocol_error,
              st\<lparr>iter := ?i + ?n + ?w, field_value := ?stored buf', msg := None,
                 missingSize := ms, inner_reads := inner_reads st @ [(?i, ?n)]\<rparr>)"
      using w mismatch
      by (subst read_verify_eq[where rd = rd, OF w rd es]) (simp_all add: Let_def)
    then show ?thesis using False w
      by (simp add: eval_read_def read_internal_def min_length_def)
  qed
qed

theorem corruption_detected_witness:
  "field_length (sum_layer 1 []) \<le> 4
   \<and> iter (read_start (Some 0)) + 4 \<le> length [1, 2, 3, 6 :: byte]
   \<and> eval_read (sum_layer 1 []) [1, 2, 3, 6] (read_start (Some 0)) 4 payload_read
      = Some (success, \<lparr>iter = 4, field_value = 6, msg = Some [1, 2, 3],
                        missingSize = Some 0, inner_reads = [(0, 3)]\<rparr>)
   \<and> [1, 2, 3, 6 :: byte][1 := flip_bit 3 ([1, 2, 3, 6] ! 1)] = [1, 10, 3, 6]
   \<and> eval_read (sum_layer 1 []) [1, 10, 3, 6] (read_start (Some 0)) 4 payload_read
      = Some (protocol_error, \<lparr>iter = 4, field_value = 6, msg = None,
                               missingSize = Some 0, inner_reads = [(0, 3)]\<rparr>)"
  using corruption_detected
    [of "sum_layer 1 []" 4 "read_start (Some 0)" "[1, 2, 3, 6]" 1 3 "[1, 10, 3, 6]" payload_read]
  by (simp add: read_defs)

text \<open>
  C2 as stated fails in the default configuration when the next layer rejects the
  changed bytes first. Over a length-prefixed payload, \<open>[2, 7, 8, 17]\<close> is a valid frame
  for the byte sum; flipping bit 2 of the length byte gives \<open>[6, 7, 8, 17]\<close>, the next
  layer reports \<^verbatim>\<open>not_enough_data\<close>, and \<^verbatim>\<open>read_verify\<close> returns that status at
  once: no \<^verbatim>\<open>protocol_error\<close>, and the message is not reset.
\<close>

theorem corruption_undetected_counterexample:
  "eval_read (sum_layer 1 []) [2, 7, 8, 17] ((read_start (Some 0))\<lparr>msg := Some [9]\<rparr>) 4
     sized_read
     = Some (success, \<lparr>iter = 4, field_value = 17, msg = Some [7, 8], missingSize = Some 0,
                       inner_reads = [(0, 3)]\<rparr>)
   \<and> [2, 7, 8, 17 :: byte][0 := flip_bit 2 ([2, 7, 8, 17] ! 0)] = [6, 7, 8, 17]
   \<and> eval_read (sum_layer 1 []) [6, 7, 8, 17] ((read_start (Some 0))\<lparr>msg := Some [9]\<rparr>) 4
        sized_read
     = Some (not_enough_data, \<lparr>iter = 1, field_value = 0, msg = Some [9],
                               missingSize = Some 4, inner_reads = [(0, 3)]\<rparr>)"
  by (simp add: read_defs sized_read_def)

text \<open>
  C3 (policy equivalence), as amended. When the next layer's read succeeds having
  consumed exactly the leading \<open>size - field_length\<close> bytes, and the trailing field
  matches the calculator over those bytes, a verify-before-read layer and a
  verify-after-read layer (the default, the empty option list, among them) return the
  same result: \<^verbatim>\<open>success\<close>, the same message, the cursor at \<open>iter + size\<close>, the same
  field value and missing-size slot.
\<close>

theorem policies_agree_on_whole_frame:
  assumes "field_length L \<le> sz"
    and "rd buf (msg st) (iter st) (sz - field_length L) (missingSize st)
         = (success, m, iter st + (sz - field_length L), ms)"
    and "read_data (field_endian L)
           (take (field_length L) (drop (iter st + (sz - field_length L)) buf))
         = cast_value L (TCalc L (take (sz - field_length L) (drop (iter st) buf)))"
    and "has_verify_before_read before"
    and "\<not> has_verify_before_read after"
  shows "eval_read (L\<lparr>TOptions := before\<rparr>) buf st sz rd
         = eval_read (L\<lparr>TOptions := after\<rparr>) buf st sz rd
      \<and> eval_read (L\<lparr>TOptions := after\<rparr>) buf st sz rd
         = Some (success,
                 st\<lparr>iter := iter st + sz,
                    field_value := cast_value L
                      (TCalc L (take (sz - field_length L) (drop (iter st) buf))),
                    msg := m, missingSize := ms,
                    inner_reads := inner_reads st @ [(iter st, sz - field_length L)]\<rparr>)"
proof -
  let ?w = "field_length L"
  have a: "eval_read (L\<lparr>TOptions := after\<rparr>) buf st sz rd
         = Some (success,
                 st\<lparr>iter := iter st + sz,
                    field_value := cast_value L (TCalc L (take (sz - ?w) (drop (iter st) buf))),
                    msg := m, missingSize := ms,
                    inner_reads := inner_reads st @ [(iter st, sz - ?w)]\<rparr>)"
    using assms(1,3,5)
      read_verify_eq[where L = "L\<lparr>TOptions := after\<rparr>" and rd = rd and st = st and buf = buf
        and sz = sz and es = success and m = m and ms = ms and it = "iter st + (sz - ?w)"]
      assms(2)
    by (simp add: eval_read_def read_internal_def min_length_def Let_def cast_value_def)
  have b: "eval_read (L\<lparr>TOptions := before\<rparr>) buf st sz rd
         = Some (success,
                 st\<lparr>iter := iter st + sz,
                    field_value := cast_value L (TCalc L (take (sz - ?w) (drop (iter st) buf))),
                    msg := m, missingSize := ms,
                    inner_reads := inner_reads st @ [(iter st, sz - ?w)]\<rparr>)"
    using assms(1,2,3,4)
    by (simp add: eval_read_def read_internal_def min_length_def verify_read_eq Let_def
        next_layer_read_def cast_value_def)
  show ?thesis using a b by simp
qed

theorem policies_agree_on_whole_frame_witness:
  "field_length (sum_layer 1 []) \<le> 4
   \<and> has_verify_before_read [checksum_layer_verify_before_read]
   \<and> \<not> has_verify_before_read []
   \<and> eval_read (sum_layer 1 [checksum_layer_verify_before_read]) [1, 2, 3, 6]
        (read_start (Some 0)) 4 payload_read
      = eval_read (sum_layer 1 []) [1, 2, 3, 6] (read_start (Some 0)) 4 payload_read
   \<and> eval_read (sum_layer 1 []) [1, 2, 3, 6] (read_start (Some 0)) 4 payload_read
      = Some (success, \<lparr>iter = 4, field_value = 6, msg = Some [1, 2, 3],
                        missingSize = Some 0, inner_reads = [(0, 3)]\<rparr>)"
  using policies_agree_on_whole_frame
    [of "sum_layer 1 []" 4 payload_read "[1, 2, 3, 6]" "read_start (Some 0)"
        "Some [1, 2, 3]" "Some 0" "[checksum_layer_verify_before_read]" "[]"]
  by (simp add: read_defs)

text \<open>
  C3 as stated fails when the next layer consumes fewer bytes than it is offered: the
  default policy reads the field right after the consumed bytes, verify-before-read
  reads it from the tail of the \<open>size\<close> bytes. On \<open>[1, 5, 6, 0, 12]\<close> over a
  length-prefixed payload both succeed with the message \<open>[5]\<close>, the first with the
  cursor at 3, the second with the cursor at 5.
\<close>

theorem policies_differ_counterexample:
  "eval_read (sum_layer 1 []) [1, 5, 6, 0, 12] (read_start None) 5 sized_read
     = Some (success, \<lparr>iter = 3, field_value = 6, msg = Some [5], missingSize = None,
                       inner_reads = [(0, 4)]\<rparr>)
   \<and> eval_read (sum_layer 1 [checksum_layer_verify_before_read]) [1, 5, 6, 0, 12]
        (read_start None) 5 sized_read
     = Some (success, \<lparr>iter = 5, field_value = 12, msg = Some [5], missingSize = None,
                       inner_reads = [(0, 4)]\<rparr>)"
  by (simp add: read_defs sized_read_def)

text \<open>
  C4. In the verify-before-read configuration, whenever the value stored in the last
  \<open>field_length\<close> bytes of the \<open>size\<close> bytes differs from the calculator's result, cast
  to the field, over the leading \<open>size - field_length\<close> bytes, the read returns
  \<^verbatim>\<open>protocol_error\<close> with the message reset, whatever the next layer's reader is: the
  log of calls to it is unchanged, as are the cursor and the missing-size slot.
\<close>

theorem verify_before_read_rejects_unread:
  assumes "has_verify_before_read (TOptions L)"
    and "field_length L \<le> sz"
    and "read_data (field_endian L)
           (take (field_length L) (drop (iter st + (sz - field_length L)) buf))
         \<noteq> cast_value L (TCalc L (take (sz - field_length L) (drop (iter st) buf)))"
  shows "\<exists>st'. eval_read L buf st sz rd = Some (protocol_error, st')
      \<and> st' = st\<lparr>field_value := read_data (field_endian L)
                      (take (field_length L) (drop (iter st + (sz - field_length L)) buf)),
                 msg := None\<rparr>
      \<and> inner_reads st' = inner_reads st"
  using assms
  by (simp add: eval_read_def read_internal_def min_length_def verify_read_eq Let_def)

theorem verify_before_read_rejects_unread_witness:
  "has_verify_before_read (TOptions (sum_layer 1 [checksum_layer_verify_before_read]))
   \<and> field_length (sum_layer 1 [checksum_layer_verify_before_read]) \<le> 4
   \<and> eval_read (sum_layer 1 [checksum_layer_verify_before_read]) [1, 2, 3, 7]
        (read_start (Some 0)) 4 payload_read
      = Some (protocol_error, \<lparr>iter = 0, field_value = 7, msg = None, missingSize = Some 0,
                               inner_reads = []\<rparr>)"
  using verify_before_read_rejects_unread
    [of "sum_layer 1 [checksum_layer_verify_before_read]" 4 "read_start (Some 0)"
        "[1, 2, 3, 7]" payload_read]
  by (simp add: read_defs)

text \<open>
  C5 (truncated input), as amended. Let a frame be the inner bytes \<open>B\<close> followed by the
  encoding of their checksum, and present only its first \<open>L - k\<close> bytes, where
  \<open>L = length B + field_length\<close> and \<open>k \<le> length B\<close>, so that at least \<open>field_length\<close>
  bytes remain. The next layer is offered \<open>length B - k\<close> bytes. When its read reports
  \<^verbatim>\<open>not_enough_data\<close>, the default configuration returns \<^verbatim>\<open>not_enough_data\<close> with
  the cursor, the message and the missing-size slot as the next layer left them: the
  missing size is the next layer's, \<open>k\<close> for a layer that lacks \<open>k\<close> bytes. When its read
  succeeds having consumed all it was offered, as the payload layer's does, the field
  is read from the frame's bytes at offset \<open>length B - k\<close> (the last \<open>k\<close> inner bytes and
  the first bytes of the checksum), and the result is \<^verbatim>\<open>success\<close> when that value
  equals the checksum of the first \<open>length B - k\<close> bytes and \<^verbatim>\<open>protocol_error\<close> with
  the message reset otherwise; the missing-size slot is not written by this layer.
  Verify-before-read makes that comparison first and on a mismatch returns
  \<^verbatim>\<open>protocol_error\<close> without calling the next layer.
\<close>

theorem truncated_frame_read:
  fixes rd :: "'m reader"
  assumes "k \<le> length B" and "iter st = 0"
    and "buf = take (length B + field_length L - k)
                 (B @ write_data (field_endian L) (field_length L) (cast_value L (TCalc L B)))"
    and "rd buf (msg st) 0 (length B - k) (missingSize st) = (es, m, it, ms)"
    and "es = not_enough_data \<or> es = success \<and> it = length B - k"
  shows "eval_read L buf st (length B + field_length L - k) rd =
    (let stored = read_data (field_endian L)
                    (take (field_length L) (drop (length B - k)
                       (B @ write_data (field_endian L) (field_length L)
                              (cast_value L (TCalc L B)))));
         chk = cast_value L (TCalc L (take (length B - k) B));
         log = inner_reads st @ [(0, length B - k)]
     in Some (
       if has_verify_before_read (TOptions L) \<and> stored \<noteq> chk
       then (protocol_error, st\<lparr>field_value := stored, msg := None\<rparr>)
       else if es = not_enough_data
       then (not_enough_data,
             st\<lparr>iter := it,
                field_value := (if has_verify_before_read (TOptions L) then stored
                                else field_value st),
                msg := m, missingSize := ms, inner_reads := log\<rparr>)
       else if stored = chk
       then (success,
             st\<lparr>iter := length B + field_length L - k, field_value := stored, msg := m,
                missingSize := ms, inner_reads := log\<rparr>)
       else (protocol_error,
             st\<lparr>iter := length B + field_length L - k, field_value := stored, msg := None,
                missingSize := ms, inner_reads := log\<rparr>)))"
proof -
  let ?w = "field_length L" and ?n = "length B - k"
  define frame where
    "frame = B @ write_data (field_endian L) ?w (cast_value L (TCalc L B))"
  define sz where "sz = length B + ?w - k"
  have w: "?w \<le> sz" using assms(1) by (simp add: sz_def)
  have n: "sz - ?w = ?n" using assms(1) by (simp add: sz_def)
  have szn: "sz = ?n + ?w" using assms(1) by (simp add: sz_def)
  have buf0: "buf = take sz frame"
    unfolding frame_def sz_def by (rule assms(3))
  have buf: "buf = take (?n + ?w) frame"
    using buf0 unfolding szn .
  have fld: "take ?w (drop ?n buf) = take ?w (drop ?n frame)"
    unfolding buf by (rule take_drop_take)
  have lead: "take ?n buf = take ?n B"
    unfolding buf frame_def by (rule take_take_le) simp
  have rd': "rd buf (msg st) (iter st) (sz - ?w) (missingSize st) = (es, m, it, ms)"
    using assms(2,4) n by simp
  have es': "es = not_enough_data \<or> es = success \<and> it = iter st + (sz - ?w)"
    using assms(2,5) n by simp
  have "eval_read L buf st sz rd =
    (let stored = read_data (field_endian L) (take ?w (drop ?n frame));
         chk = cast_value L (TCalc L (take ?n B));
         log = inner_reads st @ [(0, ?n)]
     in Some (
       if has_verify_before_read (TOptions L) \<and> stored \<noteq> chk
       then (protocol_error, st\<lparr>field_value := stored, msg := None\<rparr>)
       else if es = not_enough_data
       then (not_enough_data,
             st\<lparr>iter := it,
                field_value := (if has_verify_before_read (TOptions L) then stored
                                else field_value st),
                msg := m, missingSize := ms, inner_reads := log\<rparr>)
       else if stored = chk
       then (success,
             st\<lparr>iter := sz, field_value := stored, msg := m,
                missingSize := ms, inner_reads := log\<rparr>)
       else (protocol_error,
             st\<lparr>iter := sz, field_value := stored, msg := None,
                missingSize := ms, inner_reads := log\<rparr>)))"
    unfolding eval_read_inner_cases[where rd = rd, OF w rd' es'] n assms(2)
    by (simp add: fld lead Let_def)
  then show ?thesis unfolding frame_def sz_def .
qed

theorem truncated_frame_read_witness:
  "(1::nat) \<le> length [1, 2, 3 :: byte]
   \<and> take (length [1, 2, 3 :: byte] + field_length (sum_layer 2 []) - 1)
        ([1, 2, 3] @ write_data (field_endian (sum_layer 2 [])) (field_length (sum_layer 2 []))
                       (cast_value (sum_layer 2 []) (TCalc (sum_layer 2 []) [1, 2, 3])))
      = [1, 2, 3, 0]
   \<and> payload_read [1, 2, 3, 0] None 0 2 (Some 0) = (success, Some [1, 2], 2, Some 0)
   \<and> eval_read (sum_layer 2 []) [1, 2, 3, 0] (read_start (Some 0)) 4 payload_read
      = Some (protocol_error, \<lparr>iter = 4, field_value = 768, msg = None,
                               missingSize = Some 0, inner_reads = [(0, 2)]\<rparr>)
   \<and> take (length [2, 7, 8 :: byte] + field_length (sum_layer 2 []) - 1)
        ([2, 7, 8] @ write_data (field_endian (sum_layer 2 [])) (field_length (sum_layer 2 []))
                       (cast_value (sum_layer 2 []) (TCalc (sum_layer 2 []) [2, 7, 8])))
      = [2, 7, 8, 0]
   \<and> sized_read [2, 7, 8, 0] None 0 2 (Some 0) = (not_enough_data, None, 1, Some 1)
   \<and> eval_read (sum_layer 2 []) [2, 7, 8, 0] (read_start (Some 0)) 4 sized_read
      = Some (not_enough_data, \<lparr>iter = 1, field_value = 0, msg = None,
                                missingSize = Some 1, inner_reads = [(0, 2)]\<rparr>)"
  using truncated_frame_read
      [where k = 1 and B = "[1, 2, 3]" and st = "read_start (Some 0)" and buf = "[1, 2, 3, 0]"
         and L = "sum_layer 2 []" and rd = payload_read and es = success
         and m = "Some [1, 2]" and it = 2 and ms = "Some 0"]
    truncated_frame_read
      [where k = 1 and B = "[2, 7, 8]" and st = "read_start (Some 0)" and buf = "[2, 7, 8, 0]"
         and L = "sum_layer 2 []" and rd = sized_read and es = not_enough_data
         and m = None and it = 1 and ms = "Some 1"]
  by (simp add: read_defs sized_read_def write_data_def write_data_le_numeral)

text \<open>
  C5 as stated fails over the payload layer, on its own example and on a field of two
  bytes. With the byte sum on one byte, \<open>[1, 2, 3]\<close> decodes with \<^verbatim>\<open>success\<close> to the payload \<open>[1, 2]\<close>. With
  the byte sum on two bytes, the first four bytes of the encoding \<open>[1, 2, 3, 0, 6]\<close> of
  \<open>[1, 2, 3]\<close> decode with \<^verbatim>\<open>protocol_error\<close>. The missing-size slot keeps its value
  in both.
\<close>

theorem truncated_frame_counterexample:
  "eval_read (sum_layer 1 []) [1, 2, 3] (read_start (Some 0)) 3 payload_read
     = Some (success, \<lparr>iter = 3, field_value = 3, msg = Some [1, 2], missingSize = Some 0,
                       inner_reads = [(0, 2)]\<rparr>)
   \<and> take 4 ([1, 2, 3 :: byte] @ write_data big_endian 2 (basic_sum [1, 2, 3])) = [1, 2, 3, 0]
   \<and> eval_read (sum_layer 2 []) [1, 2, 3, 0] (read_start (Some 0)) 4 payload_read
     = Some (protocol_error, \<lparr>iter = 4, field_value = 768, msg = None,
                               missingSize = Some 0, inner_reads = [(0, 2)]\<rparr>)"
  by (simp add: read_defs write_data_def write_data_le_numeral)

text \<open>
  C6 (write-path equivalence). For a payload \<open>P\<close>, the random access write produces the
  field value \<open>cast_value L (TCalc L P)\<close> and the frame \<open>P\<close> followed by its encoding;
  the sequential write returns \<^verbatim>\<open>update_required\<close>, and the update pass over the
  bytes it appended produces the same field value and the same frame.
\<close>

theorem write_paths_agree:
  assumes "out_iter ws + sz \<le> length (out_buf ws)"
    and "length P + field_length L \<le> sz"
  shows "\<exists>ra sq up.
      eval_write L random_access_iterator_tag P ws sz payload_write = Some (success, ra)
    \<and> eval_write L output_iterator_tag P os sz payload_write = Some (update_required, sq)
    \<and> eval_update L (sq\<lparr>out_iter := length (out_buf os)\<rparr>) (length P + field_length L)
          payload_update = Some (success, up)
    \<and> out_field up = out_field ra
    \<and> out_field ra = cast_value L (TCalc L P)
    \<and> take (length P + field_length L) (drop (out_iter ws) (out_buf ra))
        = P @ write_data (field_endian L) (field_length L) (cast_value L (TCalc L P))
    \<and> drop (length (out_buf os)) (out_buf up)
        = P @ write_data (field_endian L) (field_length L) (cast_value L (TCalc L P))"
proof -
  let ?w = "field_length L" and ?e = "field_endian L"
  let ?ph = "write_data ?e ?w (out_field os)"
  let ?cs = "write_data ?e ?w (cast_value L (TCalc L P))"
  let ?sq = "os\<lparr>out_buf := out_buf os @ P @ ?ph,
                 out_iter := out_iter os + length P + ?w,
                 inner_writes := inner_writes os @ [(out_iter os, sz - ?w)]\<rparr>"
  let ?st = "?sq\<lparr>out_iter := length (out_buf os)\<rparr>"
  have li: "length (take (out_iter ws) (out_buf ws)) = out_iter ws" using assms by simp
  have sq: "eval_write L output_iterator_tag P os sz payload_write = Some (update_required, ?sq)"
    by (rule eval_write_output_payload[OF assms(2)])
  have rng: "out_iter ?st + (length P + ?w) \<le> length (out_buf ?st)"
    by (simp add: length_write_data)
  have up: "eval_update L ?st (length P + ?w) payload_update
      = Some (success,
              ?st\<lparr>out_buf := out_buf os @ P @ ?cs,
                  out_iter := length (out_buf os) + (length P + ?w),
                  out_field := cast_value L (TCalc L P),
                  inner_writes := inner_writes ?st @ [(length (out_buf os), length P)]\<rparr>)"
    by (subst eval_update_payload[OF rng]) (simp_all add: length_write_data)
  show ?thesis
    using li up
    by (simp add: eval_write_random_access_payload[OF assms] sq length_write_data)
qed

theorem write_paths_agree_witness:
  "out_iter (write_start [0, 0, 0, 0, 0, 0]) + 6 \<le> length (out_buf (write_start [0, 0, 0, 0, 0, 0]))
   \<and> length [1, 2, 3 :: byte] + field_length (sum_layer 2 []) \<le> 6
   \<and> eval_write (sum_layer 2 []) random_access_iterator_tag [1, 2, 3]
        (write_start [0, 0, 0, 0, 0, 0]) 6 payload_write
      = Some (success, \<lparr>out_buf = [1, 2, 3, 0, 6, 0], out_iter = 5, out_field = 6,
                        inner_writes = [(0, 6)]\<rparr>)
   \<and> eval_write (sum_layer 2 []) output_iterator_tag [1, 2, 3] (write_start []) 6 payload_write
      = Some (update_required, \<lparr>out_buf = [1, 2, 3, 0, 0], out_iter = 5, out_field = 0,
                                inner_writes = [(0, 4)]\<rparr>)
   \<and> eval_update (sum_layer 2 [])
        \<lparr>out_buf = [1, 2, 3, 0, 0], out_iter = 0, out_field = 0, inner_writes = [(0, 4)]\<rparr>
        5 payload_update
      = Some (success, \<lparr>out_buf = [1, 2, 3, 0, 6], out_iter = 5, out_field = 6,
                        inner_writes = [(0, 4), (0, 3)]\<rparr>)"
  using write_paths_agree
    [of "write_start [0, 0, 0, 0, 0, 0]" 6 "[1, 2, 3]" "sum_layer 2 []" "write_start []"]
  by (simp add: write_defs update_defs)




text \<open>
  C8 (update idempotence). After an update that succeeded, a second update from the
  same starting position over the same size, with any initial value of the field
  argument, succeeds and leaves the buffer and the field value as the first update left
  them, provided the next layer's update leaves that buffer as it is.
\<close>

theorem update_idempotent:
  assumes "eval_update L st sz upd = Some (success, st1)"
    and "field_length L \<le> sz"
    and "out_iter st + sz \<le> length (out_buf st1)"
    and "upd (out_buf st1) (out_iter st) (sz - field_length L)
         = (success, out_buf st1, out_iter st + (sz - field_length L))"
  shows "eval_update L (st1\<lparr>out_iter := out_iter st, out_field := f\<rparr>) sz upd
         = Some (success,
                 st1\<lparr>inner_writes := inner_writes st1
                                      @ [(out_iter st, sz - field_length L)]\<rparr>)"
proof -
  let ?w = "field_length L" and ?i = "out_iter st" and ?n = "sz - field_length L"
  obtain es b it where u: "upd (out_buf st) ?i ?n = (es, b, it)"
    by (cases "upd (out_buf st) ?i ?n") auto
  let ?c = "cast_value L (TCalc L (take ?n (drop ?i b)))"
  let ?cs = "write_data (field_endian L) ?w ?c"
  from assms(1,2) u have it: "it = ?i + ?n"
    by (auto simp: eval_update_def next_layer_update_def Let_def max_length_def size_sub_le
        distance_le split: if_splits)
  from assms(1,2) u it have st1: "st1 = st\<lparr>out_buf := take (?i + ?n) b @ ?cs @ drop (?i + ?n + ?w) b,
        out_iter := ?i + ?n + ?w, out_field := ?c,
        inner_writes := inner_writes st @ [(?i, ?n)]\<rparr>"
    by (auto simp: eval_update_def next_layer_update_def Let_def max_length_def size_sub_le
        distance_le field_write_def put_bytes_def calc_range_def length_write_data
        split: if_splits)
  let ?b1 = "take (?i + ?n) b @ ?cs @ drop (?i + ?n + ?w) b"
  have b1: "out_buf st1 = ?b1" using st1 by simp
  have lb: "?i + ?n \<le> length b"
  proof (rule ccontr)
    assume "\<not> ?i + ?n \<le> length b"
    then have "length ?b1 < ?i + ?n + ?w" by (simp add: length_write_data)
    with assms(2,3) b1 show False by simp
  qed
  define front where "front = take (?i + ?n) b"
  define rest where "rest = ?cs @ drop (?i + ?n + ?w) b"
  have lf: "length front = ?i + ?n" using lb by (simp add: front_def)
  have fr: "drop ?i front = take ?n (drop ?i b)"
    by (simp add: front_def drop_take)
  have lfr: "length (drop ?i front) = ?n" using lf by simp
  have "take ?n (drop ?i (front @ rest)) = drop ?i front"
    using lf lfr by simp
  then have "take ?n (drop ?i (front @ rest)) = take ?n (drop ?i b)"
    using fr by simp
  then have region: "take ?n (drop ?i ?b1) = take ?n (drop ?i b)"
    unfolding front_def rest_def .
  have again: "take (?i + ?n) ?b1 @ ?cs @ drop (?i + ?n + ?w) ?b1 = ?b1"
    using lb by (simp add: min_def length_write_data)
  show ?thesis
    using assms(2) assms(4) region again
    unfolding b1
    by (simp add: eval_update_def next_layer_update_def Let_def max_length_def size_sub_le
        distance_le field_write_def put_bytes_def calc_range_def length_write_data st1)
qed

theorem update_idempotent_witness:
  "eval_update (sum_layer 2 []) (write_start [1, 2, 3, 0, 0]) 5 payload_update
     = Some (success, \<lparr>out_buf = [1, 2, 3, 0, 6], out_iter = 5, out_field = 6,
                       inner_writes = [(0, 3)]\<rparr>)
   \<and> field_length (sum_layer 2 []) \<le> 5
   \<and> payload_update [1, 2, 3, 0, 6] 0 3 = (success, [1, 2, 3, 0, 6], 3)
   \<and> eval_update (sum_layer 2 [])
        \<lparr>out_buf = [1, 2, 3, 0, 6], out_iter = 0, out_field = 0, inner_writes = [(0, 3)]\<rparr>
        5 payload_update
     = Some (success, \<lparr>out_buf = [1, 2, 3, 0, 6], out_iter = 5, out_field = 6,
                       inner_writes = [(0, 3), (0, 3)]\<rparr>)"
proof -
  have first: "eval_update (sum_layer 2 []) (write_start [1, 2, 3, 0, 0]) 5 payload_update
     = Some (success, \<lparr>out_buf = [1, 2, 3, 0, 6], out_iter = 5, out_field = 6,
                       inner_writes = [(0, 3)]\<rparr>)"
    by (simp add: update_defs)
  show ?thesis
    using first update_idempotent [OF first, of 0]
    by (simp add: update_defs)
qed

text \<open>
  C9. A read with fewer bytes than the field's minimum length returns
  \<^verbatim>\<open>not_enough_data\<close> at once and changes nothing: the next layer is not called, and
  the missing-size slot is not written, although one byte or more is missing.
\<close>

theorem short_read_leaves_state:
  assumes "sz < min_length L"
  shows "eval_read L buf st sz rd = Some (not_enough_data, st)"
  using assms by (simp add: eval_read_def)

theorem short_read_leaves_state_witness:
  "(0::nat) < min_length (sum_layer 1 [])
   \<and> eval_read (sum_layer 1 []) [] (read_start (Some 0)) 0 payload_read
      = Some (not_enough_data, read_start (Some 0))
   \<and> missingSize (read_start (Some 0) :: (byte list) read_state) = Some 0"
  using short_read_leaves_state [of 0 "sum_layer 1 []" "[]" "read_start (Some 0)" payload_read]
  by (simp add: read_defs)

text \<open>
  C10. In the verify-after-read configuration, when the next layer's read returns
  neither \<^verbatim>\<open>not_enough_data\<close> nor \<^verbatim>\<open>protocol_error\<close> and the read of the checksum
  field from the remaining bytes does not succeed, the layer returns the field's status
  (\<^verbatim>\<open>not_enough_data\<close>) with the message reset and the missing-size slot updated.
\<close>

theorem field_failure_resets_message:
  assumes "\<not> has_verify_before_read (TOptions L)"
    and "field_length L \<le> sz"
    and "rd buf (msg st) (iter st) (sz - field_length L) (missingSize st) = (es, m, it, ms)"
    and "es \<noteq> not_enough_data" and "es \<noteq> protocol_error"
    and "iter st \<le> it" and "it - iter st \<le> sz"
    and "field_read L buf (field_value st) it (sz - (it - iter st)) = (checksumEs, v, it')"
    and "checksumEs \<noteq> success"
  shows "\<exists>st'. eval_read L buf st sz rd = Some (checksumEs, st')
      \<and> msg st' = None
      \<and> checksumEs = not_enough_data
      \<and> st' = st\<lparr>iter := it, msg := None,
                 missingSize := update_missing_size L (sz - (it - iter st)) ms,
                 inner_reads := inner_reads st @ [(iter st, sz - field_length L)]\<rparr>"
proof -
  from assms(8,9) have short: "sz - (it - iter st) < field_length L"
    and cs: "checksumEs = not_enough_data"
    by (auto simp: field_read_def split: if_splits)
  have "read_verify L buf st sz rd
      = Some (not_enough_data,
              st\<lparr>iter := it, msg := None,
                 missingSize := update_missing_size L (sz - (it - iter st)) ms,
                 inner_reads := inner_reads st @ [(iter st, sz - field_length L)]\<rparr>)"
    by (simp only: read_verify_eq[where rd = rd, OF assms(2) assms(3) assms(4) assms(5)
          assms(6) assms(7)] Let_def short if_True)
  then show ?thesis
    using assms(1,2) cs
    by (simp add: eval_read_def read_internal_def min_length_def)
qed

theorem field_failure_resets_message_witness:
  "\<not> has_verify_before_read (TOptions (sum_layer 1 []))
   \<and> field_length (sum_layer 1 []) \<le> 3
   \<and> field_read (sum_layer 1 []) [1, 2, 3] 0 3 0 = (not_enough_data, 0, 3)
   \<and> eval_read (sum_layer 1 []) [1, 2, 3] ((read_start (Some 0))\<lparr>msg := Some [7]\<rparr>) 3
        (\<lambda>buf m it sz ms. (success, Some (take (sz + 1) (drop it buf)), it + (sz + 1), ms))
      = Some (not_enough_data,
              \<lparr>iter = 3, field_value = 0, msg = None, missingSize = Some 1,
               inner_reads = [(0, 2)]\<rparr>)"
  using field_failure_resets_message
    [of "sum_layer 1 []" 3
        "\<lambda>buf m it sz ms. (success, Some (take (sz + 1) (drop it buf)), it + (sz + 1), ms)"
        "[1, 2, 3]" "(read_start (Some 0))\<lparr>msg := Some [7]\<rparr>" success "Some [1, 2, 3]" 3
        "Some 0" not_enough_data 0 3]
  by (simp add: read_defs)

end
